theory Spec2Isabelle
  imports Complex_Main "HOL-Library.Log_Nat"
begin

section \<open>Series Complete for Plex: the Home Assistant integration\<close>

text \<open>
  A shallow embedding of \<^verbatim>\<open>coordinator.py\<close>, \<^verbatim>\<open>sensor.py\<close> and the
  auto-detection of \<^verbatim>\<open>config_flow.py\<close>.

  The network is the environment: what \<^verbatim>\<open>session.post\<close>, \<^verbatim>\<open>session.get\<close> and
  \<^verbatim>\<open>resp.json()\<close> do is an input of the model (a value of \<open>post_outcome\<close> or a function
  from hostnames to \<open>probe_outcome\<close>). Every \<^verbatim>\<open>raise\<close> of the Python is a value
  \<open>Inl e\<close> of a sum type.
\<close>

subsection \<open>Python values\<close>

text \<open>
  What \<^verbatim>\<open>resp.json()\<close> returns: \<^verbatim>\<open>None\<close>, \<^verbatim>\<open>bool\<close>, \<^verbatim>\<open>int\<close> (unbounded),
  \<^verbatim>\<open>float\<close>, \<^verbatim>\<open>str\<close>, \<^verbatim>\<open>list\<close> and \<^verbatim>\<open>dict\<close>. A float is a binary64 number and is
  represented by its exact rational value; the literals \<^verbatim>\<open>NaN\<close> and \<^verbatim>\<open>Infinity\<close>, which are
  not JSON, are not modelled. A dict is the list of its items (its keys are distinct).
\<close>

datatype json =
    JNull
  | JBool bool
  | JInt int
  | JFloat rat
  | JStr string
  | JArr "json list"
  | JObj "(string \<times> json) list"

datatype py_exn =
    UpdateFailed
  | ValueError
  | AttributeError
  | TypeError
  | ZeroDivisionError
  | OverflowError

datatype number = PyInt int | PyFloat rat

text \<open>The numeric types of Python: \<^verbatim>\<open>bool\<close> is a subclass of \<^verbatim>\<open>int\<close>.\<close>

fun as_number :: "json \<Rightarrow> number option" where
  "as_number (JBool b) = Some (PyInt (if b then 1 else 0))"
| "as_number (JInt i) = Some (PyInt i)"
| "as_number (JFloat q) = Some (PyFloat q)"
| "as_number _ = None"

fun value_of :: "number \<Rightarrow> rat" where
  "value_of (PyInt i) = of_int i"
| "value_of (PyFloat q) = q"

text \<open>\<^verbatim>\<open>bool(v)\<close>, the truth value that \<^verbatim>\<open>and\<close> tests.\<close>

fun truthy :: "json \<Rightarrow> bool" where
  "truthy JNull = False"
| "truthy (JBool b) = b"
| "truthy (JInt i) = (i \<noteq> 0)"
| "truthy (JFloat q) = (q \<noteq> 0)"
| "truthy (JStr s) = (s \<noteq> [])"
| "truthy (JArr xs) = (xs \<noteq> [])"
| "truthy (JObj kvs) = (kvs \<noteq> [])"

text \<open>\<^verbatim>\<open>v > n\<close> for an int \<open>n\<close>: exact on numbers, \<^verbatim>\<open>TypeError\<close> on everything else.\<close>

definition py_gt :: "json \<Rightarrow> int \<Rightarrow> py_exn + bool" where
  "py_gt v n = (case as_number v of
      Some x \<Rightarrow> Inr (of_int n < value_of x)
    | None \<Rightarrow> Inl TypeError)"

text \<open>\<^verbatim>\<open>s.get(k, default)\<close>: only a dict has the method.\<close>

fun py_get :: "json \<Rightarrow> string \<Rightarrow> json \<Rightarrow> py_exn + json" where
  "py_get (JObj kvs) k dflt = Inr (case map_of kvs k of Some v \<Rightarrow> v | None \<Rightarrow> dflt)"
| "py_get _ k dflt = Inl AttributeError"

subsection \<open>Binary64 arithmetic\<close>

text \<open>
  Python's \<^verbatim>\<open>/\<close> and \<^verbatim>\<open>*\<close> on these values are IEEE 754 binary64 operations: the exact
  result rounded to 53 significant bits, ties to even. \<open>fl\<close> is that rounding on the
  rationals. The exponent is left unbounded: a result beyond the binary64 range stands
  for \<^verbatim>\<open>inf\<close>, except where Python raises \<^verbatim>\<open>OverflowError\<close> instead, which is written
  out below; gradual underflow (magnitudes below \<open>2 powi - 1022\<close>) is not modelled. Neither
  changes a comparison with 50 or 100.
\<close>

definition pow2 :: "int \<Rightarrow> rat" where
  "pow2 k = (if 0 \<le> k then 2 ^ nat k else 1 / 2 ^ nat (- k))"

text \<open>Rounding to the nearest integer, ties to the even one.\<close>

definition rhe :: "rat \<Rightarrow> int" where
  "rhe x = (let f = \<lfloor>x\<rfloor>; d = x - of_int f
            in if d < 1 / 2 then f
               else if 1 / 2 < d then f + 1
               else if even f then f else f + 1)"

text \<open>The binary exponent of \<open>x \<noteq> 0\<close>: the \<open>e\<close> with \<open>pow2 e \<le> \<bar>x\<bar> < pow2 (e + 1)\<close>.\<close>

definition ilog2 :: "rat \<Rightarrow> int" where
  "ilog2 x = (case quotient_of \<bar>x\<bar> of (p, q) \<Rightarrow>
      let d = bitlen p - bitlen q in if pow2 d \<le> \<bar>x\<bar> then d else d - 1)"

definition fl :: "rat \<Rightarrow> rat" where
  "fl x = (if x = 0 then 0
           else let u = pow2 (ilog2 x - 52) in of_int (rhe (x / u)) * u)"

definition too_large :: "rat \<Rightarrow> bool" where
  "too_large x = (2 ^ 1024 \<le> \<bar>x\<bar>)"

text \<open>
  \<^verbatim>\<open>int / int\<close>: the exact quotient, correctly rounded; \<^verbatim>\<open>ZeroDivisionError\<close> on a zero
  divisor, \<^verbatim>\<open>OverflowError\<close> when the result is too large for a float.
\<close>

definition int_truediv :: "int \<Rightarrow> int \<Rightarrow> py_exn + rat" where
  "int_truediv i j =
     (if j = 0 then Inl ZeroDivisionError
      else let q = fl (of_int i / of_int j)
           in if too_large q then Inl OverflowError else Inr q)"

text \<open>The conversion of an operand to float in a mixed operation.\<close>

fun to_float :: "number \<Rightarrow> py_exn + rat" where
  "to_float (PyFloat q) = Inr q"
| "to_float (PyInt i) =
     (let q = fl (of_int i) in if too_large q then Inl OverflowError else Inr q)"

definition float_truediv :: "number \<Rightarrow> number \<Rightarrow> py_exn + rat" where
  "float_truediv x y =
     (case to_float x of Inl e \<Rightarrow> Inl e | Inr a \<Rightarrow>
      (case to_float y of Inl e \<Rightarrow> Inl e | Inr b \<Rightarrow>
       if b = 0 then Inl ZeroDivisionError else Inr (fl (a / b))))"

text \<open>\<^verbatim>\<open>a / b\<close> on arbitrary values.\<close>

definition py_truediv :: "json \<Rightarrow> json \<Rightarrow> py_exn + rat" where
  "py_truediv a b =
     (case as_number a of None \<Rightarrow> Inl TypeError | Some x \<Rightarrow>
      (case as_number b of None \<Rightarrow> Inl TypeError | Some y \<Rightarrow>
       (case (x, y) of
          (PyInt i, PyInt j) \<Rightarrow> int_truediv i j
        | _ \<Rightarrow> float_truediv x y)))"

text \<open>\<^verbatim>\<open>x * 100\<close> for a float \<open>x\<close>.\<close>

definition times_100 :: "rat \<Rightarrow> rat" where
  "times_100 x = fl (x * 100)"

text \<open>The expression \<^verbatim>\<open>(a / b) * 100\<close>, which the coordinator evaluates twice.\<close>

definition percent :: "json \<Rightarrow> json \<Rightarrow> py_exn + rat" where
  "percent a b = (case py_truediv a b of Inl e \<Rightarrow> Inl e | Inr q \<Rightarrow> Inr (times_100 q))"

text \<open>
  \<^verbatim>\<open>round(x, ndigits)\<close> for a float \<open>x\<close> and \<open>ndigits \<ge> 0\<close>: the decimal with that many
  digits nearest to the exact value of \<open>x\<close>, ties to even, and then the float nearest to
  that decimal.
\<close>

definition py_round :: "rat \<Rightarrow> nat \<Rightarrow> rat" where
  "py_round x ndigits = fl (of_int (rhe (x * 10 ^ ndigits)) / 10 ^ ndigits)"

subsection \<open>The coordinator (coordinator.py)\<close>

text \<open>
  The dict \<^verbatim>\<open>data\<close> has the same six keys on every path, so it is a record. The keys
  \<^verbatim>\<open>total\<close> and \<^verbatim>\<open>complete\<close> carry a prime, the names being taken in HOL.
\<close>

record snapshot =
  total' :: int
  complete' :: int
  incomplete :: int
  critical :: int
  completion_pct :: rat
  series :: "json list"

text \<open>
  The request: \<^verbatim>\<open>session.post\<close> raises an \<^verbatim>\<open>aiohttp.ClientError\<close> or a
  \<^verbatim>\<open>TimeoutError\<close>, or yields a response with a status; reading its body with
  \<^verbatim>\<open>resp.json()\<close> raises one of the two again, or a \<^verbatim>\<open>JSONDecodeError\<close> (a
  \<^verbatim>\<open>ValueError\<close>) on a malformed body, or returns the parsed value.
\<close>

datatype transport_failure = Client_Error | Timeout_Error

datatype body_failure = Body_Client_Error | Body_Timeout_Error | Body_Decode_Error

datatype post_outcome =
    Post_Fails transport_failure
  | Post_Response int "body_failure + json"

definition initial_data :: snapshot where
  "initial_data = \<lparr>total' = 0, complete' = 0, incomplete = 0, critical = 0,
                    completion_pct = 0, series = []\<rparr>"

text \<open>One pass of the body of \<^verbatim>\<open>for s in series_list\<close>.\<close>

definition count_one :: "json \<Rightarrow> snapshot \<Rightarrow> py_exn + snapshot" where
  "count_one s d =
     (case py_get s ''totalEpisodes'' (JInt 0) of Inl e \<Rightarrow> Inl e | Inr total_eps \<Rightarrow>
      (case py_get s ''episode_count'' (JInt 0) of Inl e \<Rightarrow> Inl e | Inr owned_eps \<Rightarrow>
       (case (if truthy total_eps then py_gt total_eps 0 else Inr False) of
          Inl e \<Rightarrow> Inl e
        | Inr positive \<Rightarrow>
            if positive then
              (case percent owned_eps total_eps of Inl e \<Rightarrow> Inl e | Inr pct \<Rightarrow>
               if 100 \<le> pct then Inr (d\<lparr>complete' := complete' d + 1\<rparr>)
               else if pct < 50 then Inr (d\<lparr>critical := critical d + 1\<rparr>)
               else Inr (d\<lparr>incomplete := incomplete d + 1\<rparr>))
            else Inr d)))"

fun count_loop :: "json list \<Rightarrow> snapshot \<Rightarrow> py_exn + snapshot" where
  "count_loop [] d = Inr d"
| "count_loop (s # ss) d =
     (case count_one s d of Inl e \<Rightarrow> Inl e | Inr d' \<Rightarrow> count_loop ss d')"

text \<open>The lines after the loop: \<^verbatim>\<open>analyzed\<close> and \<^verbatim>\<open>completion_pct\<close>.\<close>

definition set_completion_pct :: "snapshot \<Rightarrow> py_exn + snapshot" where
  "set_completion_pct d =
     (let analyzed = complete' d + incomplete d + critical d
      in if 0 < analyzed then
           (case percent (JInt (complete' d)) (JInt analyzed) of Inl e \<Rightarrow> Inl e | Inr x \<Rightarrow>
            Inr (d\<lparr>completion_pct := py_round x 1\<rparr>))
         else Inr d)"

text \<open>The body of the \<^verbatim>\<open>try\<close>, with what it raises.\<close>

datatype raised = Transport transport_failure | Body body_failure | Python py_exn

definition fetch :: "post_outcome \<Rightarrow> raised + snapshot" where
  "fetch r =
     (case r of
        Post_Fails f \<Rightarrow> Inl (Transport f)
      | Post_Response status body \<Rightarrow>
          if status = 200 then
            (case body of
               Inl f \<Rightarrow> Inl (Body f)
             | Inr result \<Rightarrow>
                 let series_list = (case result of JArr xs \<Rightarrow> xs | _ \<Rightarrow> []);
                     d = initial_data\<lparr>series := series_list,
                                       total' := int (length series_list)\<rparr>
                 in (case count_loop series_list d of Inl e \<Rightarrow> Inl (Python e) | Inr d1 \<Rightarrow>
                     (case set_completion_pct d1 of Inl e \<Rightarrow> Inl (Python e)
                      | Inr d2 \<Rightarrow> Inr d2)))
          else Inr initial_data)"

text \<open>
  The two \<^verbatim>\<open>except\<close> clauses: \<^verbatim>\<open>aiohttp.ClientError\<close> and \<^verbatim>\<open>TimeoutError\<close> become
  \<^verbatim>\<open>UpdateFailed\<close>; anything else leaves the function as it is.
\<close>

fun except :: "raised \<Rightarrow> py_exn" where
  "except (Transport f) = UpdateFailed"
| "except (Body Body_Client_Error) = UpdateFailed"
| "except (Body Body_Timeout_Error) = UpdateFailed"
| "except (Body Body_Decode_Error) = ValueError"
| "except (Python e) = e"

definition async_update_data :: "post_outcome \<Rightarrow> py_exn + snapshot" where
  "async_update_data r = (case fetch r of Inl x \<Rightarrow> Inl (except x) | Inr d \<Rightarrow> Inr d)"

text \<open>
  The coordinator object, as far as this repository reads it: the cached snapshot
  \<^verbatim>\<open>coordinator.data\<close> (\<^verbatim>\<open>None\<close> before the first successful fetch) and the flag
  from which the host framework derives the availability of the entities.
\<close>

record coordinator =
  data :: "snapshot option"
  last_update_success :: bool

text \<open>
  Modelled from the spec: the refresh step of the host framework (the method of Home
  Assistant's \<^verbatim>\<open>DataUpdateCoordinator\<close> that calls \<^verbatim>\<open>_async_update_data\<close>), which is
  not part of this repository. The specification: the last-snapshot field is written
  "only after a fetch fully completes"; on "update failed" the host framework "marks
  entities unavailable" and retries on the next tick.
\<close>

definition async_refresh :: "coordinator \<Rightarrow> post_outcome \<Rightarrow> coordinator" where
  "async_refresh c r =
     (case async_update_data r of
        Inr d \<Rightarrow> c\<lparr>data := Some d, last_update_success := True\<rparr>
      | Inl e \<Rightarrow> c\<lparr>last_update_success := False\<rparr>)"

subsection \<open>The sensors (sensor.py)\<close>

datatype sensor_value = IntValue int | FloatValue rat

record sensor_description =
  key :: string
  value_fn :: "snapshot \<Rightarrow> sensor_value"

text \<open>
  Each \<^verbatim>\<open>value_fn\<close> is \<^verbatim>\<open>data.get(k, default)\<close>; every snapshot has the key, so the
  default is never taken.
\<close>

definition SENSORS :: "sensor_description list" where
  "SENSORS =
     [\<lparr>key = ''total'', value_fn = (\<lambda>d. IntValue (total' d))\<rparr>,
      \<lparr>key = ''complete'', value_fn = (\<lambda>d. IntValue (complete' d))\<rparr>,
      \<lparr>key = ''incomplete'', value_fn = (\<lambda>d. IntValue (incomplete d))\<rparr>,
      \<lparr>key = ''critical'', value_fn = (\<lambda>d. IntValue (critical d))\<rparr>,
      \<lparr>key = ''completion'', value_fn = (\<lambda>d. FloatValue (completion_pct d))\<rparr>]"

text \<open>The property \<^verbatim>\<open>native_value\<close>; \<open>None\<close> is Python's \<^verbatim>\<open>None\<close>.\<close>

definition native_value :: "coordinator \<Rightarrow> sensor_description \<Rightarrow> sensor_value option" where
  "native_value c description =
     (case data c of None \<Rightarrow> None | Some d \<Rightarrow> Some (value_fn description d))"

subsection \<open>Auto-detection (config_flow.py)\<close>

definition ADDON_PORT :: int where
  "ADDON_PORT = 3000"

definition ADDON_SLUG :: string where
  "ADDON_SLUG = ''series-complete-plex''"

definition ADDON_HASH_PREFIX :: string where
  "ADDON_HASH_PREFIX = ''e81ba94f''"

definition FALLBACK_HOSTNAMES :: "string list" where
  "FALLBACK_HOSTNAMES =
     [ADDON_HASH_PREFIX @ ''-'' @ ADDON_SLUG, ''local-'' @ ADDON_SLUG, ADDON_SLUG]"

text \<open>
  One probe: the GET of \<^verbatim>\<open>/api/test-connection\<close> on a hostname, with its 3 second
  timeout, either raises (a timeout is a \<^verbatim>\<open>TimeoutError\<close>) or answers with a status.
\<close>

datatype probe_outcome = Probe_Fails transport_failure | Probe_Status int

fun detect_loop :: "(string \<Rightarrow> probe_outcome) \<Rightarrow> string list \<Rightarrow> (string \<times> int) option" where
  "detect_loop probe [] = None"
| "detect_loop probe (hostname # rest) =
     (case probe hostname of
        Probe_Status status \<Rightarrow>
          if status = 200 then Some (hostname, ADDON_PORT) else detect_loop probe rest
      | Probe_Fails f \<Rightarrow> detect_loop probe rest)"

definition detect_app :: "(string \<Rightarrow> probe_outcome) \<Rightarrow> (string \<times> int) option" where
  "detect_app probe = detect_loop probe FALLBACK_HOSTNAMES"

subsection \<open>Notions of the specification\<close>

text \<open>
  "A record whose \<^verbatim>\<open>totalEpisodes\<close> field is \<open>> 0\<close>": the record is a dict, it has the
  key, and the value is a number above zero.
\<close>

definition has_positive_total :: "json \<Rightarrow> bool" where
  "has_positive_total s =
     (case s of
        JObj kvs \<Rightarrow>
          (case map_of kvs ''totalEpisodes'' of
             Some v \<Rightarrow> (case as_number v of Some n \<Rightarrow> 0 < value_of n | None \<Rightarrow> False)
           | None \<Rightarrow> False)
      | _ \<Rightarrow> False)"

text \<open>
  "The completion ratio \<^verbatim>\<open>episode_count/totalEpisodes*100\<close>" of a record, a missing
  field read as 0.
\<close>

definition ratio :: "json \<Rightarrow> py_exn + rat" where
  "ratio s =
     (case py_get s ''episode_count'' (JInt 0) of Inl e \<Rightarrow> Inl e | Inr owned_eps \<Rightarrow>
      (case py_get s ''totalEpisodes'' (JInt 0) of Inl e \<Rightarrow> Inl e | Inr total_eps \<Rightarrow>
       percent owned_eps total_eps))"

text \<open>A record as the service sends it, with both fields integers.\<close>

definition series_record :: "int \<Rightarrow> int \<Rightarrow> json" where
  "series_record episode_count totalEpisodes =
     JObj [(''totalEpisodes'', JInt totalEpisodes), (''episode_count'', JInt episode_count)]"

text \<open>A poll result used as the running example: five records, three of them classifiable.\<close>

definition example_series :: "json list" where
  "example_series =
     [series_record 10 10, series_record 3 10, series_record 6 10, series_record 5 0,
      JObj [(''title'', JStr ''Lost'')]]"

text \<open>Two snapshots with the same breakdown and percentage.\<close>

definition same_counts :: "snapshot \<Rightarrow> snapshot \<Rightarrow> bool" where
  "same_counts d e = (complete' d = complete' e \<and> incomplete d = incomplete e
     \<and> critical d = critical e \<and> completion_pct d = completion_pct e)"

text \<open>A coordinator that holds the snapshot of the running example.\<close>

definition cached_coordinator :: coordinator where
  "cached_coordinator =
     \<lparr>data = Some \<lparr>total' = 5, complete' = 1, incomplete = 1, critical = 1,
                    completion_pct = 2343279181116211 / 70368744177664,
                    series = example_series\<rparr>,
      last_update_success = True\<rparr>"

text \<open>
  A network in which the first hostname times out, the second answers 404 and the third
  answers 200.
\<close>

definition example_probe :: "string \<Rightarrow> probe_outcome" where
  "example_probe h =
     (if h = ''series-complete-plex'' then Probe_Status 200
      else if h = ''local-series-complete-plex'' then Probe_Status 404
      else Probe_Fails Timeout_Error)"

section \<open>Properties of the rounding\<close>

lemma pow2_powi: "pow2 k = 2 powi k"
  by (simp add: pow2_def power_int_def power_one_over inverse_eq_divide)

lemma pow2_pos: "0 < pow2 k"
  by (simp add: pow2_powi)

lemma pow2_add: "pow2 (a + b) = pow2 a * pow2 b"
  by (simp add: pow2_powi power_int_add)

lemma pow2_mono: "a \<le> b \<Longrightarrow> pow2 a \<le> pow2 b"
  by (simp add: pow2_powi power_int_increasing)

lemma pow2_less_cancel: "pow2 a < pow2 b \<Longrightarrow> a < b"
  using pow2_mono [of b a] by (cases "a < b") auto

lemma pow2_nat: "pow2 (int n) = 2 ^ n"
  by (simp add: pow2_def)

lemma ilog2_bounds:
  assumes "x \<noteq> 0"
  shows "pow2 (ilog2 x) \<le> \<bar>x\<bar> \<and> \<bar>x\<bar> < pow2 (ilog2 x + 1)"
proof -
  obtain p q where pq: "quotient_of \<bar>x\<bar> = (p, q)"
    by (cases "quotient_of \<bar>x\<bar>") auto
  have q: "0 < q" using pq by (rule quotient_of_denom_pos)
  have x: "\<bar>x\<bar> = of_int p / of_int q" using pq by (rule quotient_of_div)
  have p: "0 < p"
  proof -
    have "0 < \<bar>x\<bar>" using assms by simp
    then have "0 < (of_int p :: rat) / of_int q" using x by simp
    then show ?thesis using q by (simp add: zero_less_divide_iff)
  qed
  define bp where "bp = bitlen p"
  define bq where "bq = bitlen q"
  have pow2_int: "pow2 k = of_int (2 ^ nat k)" if "0 \<le> k" for k
    using that by (simp add: pow2_def)
  have bp1: "1 \<le> bp"
    using p by (simp add: bp_def bitlen_alt_def)
  have bq1: "1 \<le> bq"
    using q by (simp add: bq_def bitlen_alt_def)
  have plo: "pow2 (bp - 1) \<le> of_int p"
    using bitlen_bounds [OF p] bp1 unfolding bp_def [symmetric]
    by (simp only: pow2_int of_int_le_iff)
  have phi: "of_int p < pow2 bp"
    using bitlen_bounds [OF p] bp1 unfolding bp_def [symmetric]
    by (simp only: pow2_int of_int_less_iff)
  have qlo: "pow2 (bq - 1) \<le> of_int q"
    using bitlen_bounds [OF q] bq1 unfolding bq_def [symmetric]
    by (simp only: pow2_int of_int_le_iff)
  have qhi: "of_int q < pow2 bq"
    using bitlen_bounds [OF q] bq1 unfolding bq_def [symmetric]
    by (simp only: pow2_int of_int_less_iff)
  have qpos: "(0::rat) < of_int q" using q by simp
  have lo: "pow2 (bp - bq - 1) < \<bar>x\<bar>"
  proof -
    have "pow2 (bp - bq - 1) * of_int q < pow2 (bp - bq - 1) * pow2 bq"
      using qhi pow2_pos by simp
    also have "\<dots> = pow2 (bp - 1)" by (simp flip: pow2_add)
    also have "\<dots> \<le> of_int p" by (rule plo)
    finally show ?thesis using qpos by (simp add: x pos_less_divide_eq)
  qed
  have hi: "\<bar>x\<bar> < pow2 (bp - bq + 1)"
  proof -
    have "of_int p < pow2 bp" by (rule phi)
    also have "\<dots> = pow2 (bp - bq + 1) * pow2 (bq - 1)" by (simp flip: pow2_add)
    also have "\<dots> \<le> pow2 (bp - bq + 1) * of_int q"
      using qlo pow2_pos by simp
    finally show ?thesis using qpos by (simp add: x pos_divide_less_eq)
  qed
  show ?thesis
  proof (cases "pow2 (bp - bq) \<le> \<bar>x\<bar>")
    case True
    then have "ilog2 x = bp - bq" by (simp add: ilog2_def pq bp_def bq_def)
    then show ?thesis using True hi by simp
  next
    case False
    then have "ilog2 x = bp - bq - 1" by (simp add: ilog2_def pq bp_def bq_def)
    then show ?thesis using False lo by simp
  qed
qed

lemma ilog2_unique:
  assumes "pow2 e \<le> \<bar>x\<bar>" "\<bar>x\<bar> < pow2 (e + 1)"
  shows "ilog2 x = e"
proof -
  have nz: "x \<noteq> 0" using assms(1) pow2_pos [of e] by auto
  note b = ilog2_bounds [OF nz]
  have "pow2 e < pow2 (ilog2 x + 1)" using assms(1) b by linarith
  then have 1: "e < ilog2 x + 1" by (rule pow2_less_cancel)
  have "pow2 (ilog2 x) < pow2 (e + 1)" using assms(2) b by linarith
  then have 2: "ilog2 x < e + 1" by (rule pow2_less_cancel)
  from 1 2 show ?thesis by simp
qed


lemma rhe_of_int: "rhe (of_int n) = n"
  by (simp add: rhe_def)

lemma rhe_floor: "rhe x = \<lfloor>x\<rfloor> \<or> rhe x = \<lfloor>x\<rfloor> + 1"
  by (simp add: rhe_def Let_def)

lemma rhe_mono:
  assumes "x \<le> y"
  shows "rhe x \<le> rhe y"
proof (cases "\<lfloor>x\<rfloor> = \<lfloor>y\<rfloor>")
  case True
  then show ?thesis using assms by (auto simp add: rhe_def Let_def)
next
  case False
  then have "\<lfloor>x\<rfloor> + 1 \<le> \<lfloor>y\<rfloor>" using floor_mono [OF assms] by simp
  moreover have "rhe x \<le> \<lfloor>x\<rfloor> + 1" using rhe_floor [of x] by auto
  moreover have "\<lfloor>y\<rfloor> \<le> rhe y" using rhe_floor [of y] by auto
  ultimately show ?thesis by linarith
qed

lemma rhe_ge: "of_int n \<le> x \<Longrightarrow> n \<le> rhe x"
  using rhe_mono [of "of_int n" x] by (simp add: rhe_of_int)

lemma rhe_le: "x \<le> of_int n \<Longrightarrow> rhe x \<le> n"
  using rhe_mono [of x "of_int n"] by (simp add: rhe_of_int)

lemma fl_zero: "fl 0 = 0"
  by (simp add: fl_def)

lemma fl_eq:
  assumes "pow2 e \<le> \<bar>x\<bar>" "\<bar>x\<bar> < pow2 (e + 1)"
  shows "fl x = of_int (rhe (x / pow2 (e - 52))) * pow2 (e - 52)"
proof -
  have "x \<noteq> 0" using assms(1) pow2_pos [of e] by auto
  then show ?thesis using ilog2_unique [OF assms] by (simp add: fl_def Let_def)
qed

lemma fl_pos_bounds:
  assumes "0 < x"
  shows "pow2 (ilog2 x) \<le> fl x \<and> fl x \<le> pow2 (ilog2 x + 1)"
proof -
  define e where "e = ilog2 x"
  define u where "u = pow2 (e - 52)"
  have nz: "x \<noteq> 0" using assms by simp
  have b: "pow2 e \<le> x" "x < pow2 (e + 1)"
    using ilog2_bounds [OF nz] assms by (simp_all add: e_def)
  have u: "0 < u" by (simp add: u_def pow2_pos)
  have f: "fl x = of_int (rhe (x / u)) * u"
    using nz by (simp add: fl_def e_def u_def Let_def)
  have e1: "pow2 e = 2 ^ 52 * u"
    using pow2_add [of 52 "e - 52"] pow2_nat [of 52] by (simp add: u_def)
  have e2: "pow2 (e + 1) = 2 ^ 53 * u"
    using pow2_add [of 53 "e - 52"] pow2_nat [of 53] by (simp add: u_def add.commute)
  have "of_int (2 ^ 52) \<le> x / u"
    using b(1) u by (simp add: e1 pos_le_divide_eq)
  then have lo: "2 ^ 52 \<le> rhe (x / u)" by (rule rhe_ge)
  have "x / u \<le> of_int (2 ^ 53)"
    using b(2) u by (simp add: e2 pos_divide_le_eq)
  then have hi: "rhe (x / u) \<le> 2 ^ 53" by (rule rhe_le)
  have "(of_int (2 ^ 52) :: rat) \<le> of_int (rhe (x / u))"
    using lo by (simp only: of_int_le_iff)
  then have 1: "pow2 e \<le> fl x" using u by (simp add: e1 f)
  have "(of_int (rhe (x / u)) :: rat) \<le> of_int (2 ^ 53)"
    using hi by (simp only: of_int_le_iff)
  then have 2: "fl x \<le> pow2 (e + 1)" using u by (simp add: e2 f)
  from 1 2 show ?thesis by (simp add: e_def)
qed

lemma fl_pos: "0 < x \<Longrightarrow> 0 < fl x"
  using fl_pos_bounds [of x] pow2_pos [of "ilog2 x"] by linarith

lemma fl_mono_pos:
  assumes "0 < x" "x \<le> y"
  shows "fl x \<le> fl y"
proof -
  have y: "0 < y" using assms by simp
  have nx: "x \<noteq> 0" and ny: "y \<noteq> 0" using assms by simp_all
  have "pow2 (ilog2 x) < pow2 (ilog2 y + 1)"
    using ilog2_bounds [OF nx] ilog2_bounds [OF ny] assms by simp
  then have le: "ilog2 x \<le> ilog2 y" using pow2_less_cancel by fastforce
  show ?thesis
  proof (cases "ilog2 x = ilog2 y")
    case True
    define u where "u = pow2 (ilog2 y - 52)"
    have u: "0 < u" by (simp add: u_def pow2_pos)
    have "x / u \<le> y / u" using assms(2) u by (simp add: divide_right_mono)
    then have "rhe (x / u) \<le> rhe (y / u)" by (rule rhe_mono)
    then have "(of_int (rhe (x / u)) :: rat) \<le> of_int (rhe (y / u))" by simp
    then show ?thesis using u nx ny True by (simp add: fl_def u_def Let_def)
  next
    case False
    then have "ilog2 x + 1 \<le> ilog2 y" using le by simp
    then have "pow2 (ilog2 x + 1) \<le> pow2 (ilog2 y)" by (rule pow2_mono)
    then show ?thesis
      using fl_pos_bounds [OF assms(1)] fl_pos_bounds [OF y] by linarith
  qed
qed

lemma rhe_minus: "rhe (- x) = - rhe x"
proof (cases "x = of_int \<lfloor>x\<rfloor>")
  case True
  then obtain n where "x = of_int n" ..
  then show ?thesis by (simp add: rhe_of_int flip: of_int_minus)
next
  case False
  then have fm: "\<lfloor>- x\<rfloor> = - \<lfloor>x\<rfloor> - 1"
    by (simp add: floor_minus ceiling_altdef)
  show ?thesis
    unfolding rhe_def Let_def fm by (auto simp: algebra_simps)
qed

lemma ilog2_minus: "ilog2 (- x) = ilog2 x"
  by (simp add: ilog2_def)

lemma fl_minus: "fl (- x) = - fl x"
  by (simp add: fl_def ilog2_minus rhe_minus Let_def)

lemma fl_mono:
  assumes "x \<le> y"
  shows "fl x \<le> fl y"
proof -
  consider "0 < x" | "x \<le> 0" "0 \<le> y" | "y < 0" by linarith
  then show ?thesis
  proof cases
    case 1
    then show ?thesis using assms by (rule fl_mono_pos)
  next
    case 2
    have "fl x \<le> 0"
    proof (cases "x = 0")
      case True then show ?thesis by (simp add: fl_zero)
    next
      case False
      then have "0 < - x" using 2 by simp
      then have "0 < fl (- x)" by (rule fl_pos)
      then show ?thesis by (simp add: fl_minus)
    qed
    moreover have "0 \<le> fl y"
    proof (cases "y = 0")
      case True then show ?thesis by (simp add: fl_zero)
    next
      case False
      then have "0 < y" using 2 by simp
      then have "0 < fl y" by (rule fl_pos)
      then show ?thesis by simp
    qed
    ultimately show ?thesis by simp
  next
    case 3
    then have "0 < - y" "- y \<le> - x" using assms by simp_all
    then have "fl (- y) \<le> fl (- x)" by (rule fl_mono_pos)
    then show ?thesis by (simp add: fl_minus)
  qed
qed

lemma fl_nonzero: "x \<noteq> 0 \<Longrightarrow> fl x \<noteq> 0"
  using fl_pos [of x] fl_pos [of "- x"] by (cases "0 < x") (auto simp: fl_minus)

lemma fl_1: "fl 1 = 1" by code_simp
lemma fl_100: "fl 100 = 100" by code_simp
lemma fl_50: "fl 50 = 50" by code_simp
lemma fl_half: "fl (1 / 2) = 1 / 2" by code_simp
lemma fl_below_1: "fl (1 - 1 / 2 ^ 53) = 1 - 1 / 2 ^ 53" by code_simp
lemma fl_below_100: "fl ((1 - 1 / 2 ^ 53) * 100) < 100" by code_simp
lemma fl_below_half: "fl (1 / 2 - 1 / 2 ^ 54) = 1 / 2 - 1 / 2 ^ 54" by code_simp
lemma fl_below_50: "fl ((1 / 2 - 1 / 2 ^ 54) * 100) < 50" by code_simp
lemma fl_2_53: "fl (2 ^ 53) = 2 ^ 53" by code_simp

subsection \<open>The two thresholds in exact arithmetic\<close>

lemma not_too_large_0: "\<not> too_large 0"
  by (simp add: too_large_def)

lemma int_truediv_cases:
  "int_truediv i j = Inl ZeroDivisionError \<and> j = 0
   \<or> int_truediv i j = Inl OverflowError \<and> j \<noteq> 0
   \<or> int_truediv i j = Inr (fl (of_int i / of_int j)) \<and> j \<noteq> 0"
  by (simp add: int_truediv_def Let_def)

lemma int_truediv_Inr:
  "int_truediv i j = Inr q \<Longrightarrow> j \<noteq> 0 \<and> q = fl (of_int i / of_int j)"
  using int_truediv_cases [of i j] by auto

lemma percent_int_Inr:
  "percent (JInt i) (JInt j) = Inr p \<Longrightarrow> j \<noteq> 0 \<and> p = fl (fl (of_int i / of_int j) * 100)"
  by (auto simp: percent_def py_truediv_def times_100_def dest: int_truediv_Inr split: sum.splits)

lemma ratio_ge_100:
  assumes "(1::rat) \<le> x"
  shows "100 \<le> fl (fl x * 100)"
proof -
  have "fl 1 \<le> fl x" using assms by (rule fl_mono)
  then have "100 \<le> fl x * 100" by (simp add: fl_1)
  then have "fl 100 \<le> fl (fl x * 100)" by (rule fl_mono)
  then show ?thesis by (simp add: fl_100)
qed

lemma ratio_less_100:
  assumes "x \<le> 1 - 1 / 2 ^ 53"
  shows "fl (fl x * 100) < 100"
proof -
  have "fl x \<le> fl (1 - 1 / 2 ^ 53)" using assms by (rule fl_mono)
  then have "fl x \<le> 1 - 1 / 2 ^ 53" by (simp only: fl_below_1)
  then have "fl x * 100 \<le> (1 - 1 / 2 ^ 53) * 100" by (rule mult_right_mono) simp
  then have "fl (fl x * 100) \<le> fl ((1 - 1 / 2 ^ 53) * 100)" by (rule fl_mono)
  then show ?thesis using fl_below_100 by linarith
qed

lemma ratio_ge_50:
  assumes "(1::rat) / 2 \<le> x"
  shows "50 \<le> fl (fl x * 100)"
proof -
  have "fl (1 / 2) \<le> fl x" using assms by (rule fl_mono)
  then have "50 \<le> fl x * 100" by (simp add: fl_half)
  then have "fl 50 \<le> fl (fl x * 100)" by (rule fl_mono)
  then show ?thesis by (simp add: fl_50)
qed

lemma ratio_less_50:
  assumes "x \<le> 1 / 2 - 1 / 2 ^ 54"
  shows "fl (fl x * 100) < 50"
proof -
  have "fl x \<le> fl (1 / 2 - 1 / 2 ^ 54)" using assms by (rule fl_mono)
  then have "fl x \<le> 1 / 2 - 1 / 2 ^ 54" by (simp only: fl_below_half)
  then have "fl x * 100 \<le> (1 / 2 - 1 / 2 ^ 54) * 100" by (rule mult_right_mono) simp
  then have "fl (fl x * 100) \<le> fl ((1 / 2 - 1 / 2 ^ 54) * 100)" by (rule fl_mono)
  then show ?thesis using fl_below_50 by linarith
qed

lemma quotient_below_1:
  fixes a t :: int
  assumes "0 < t" "t \<le> 2 ^ 53" "a < t"
  shows "(of_int a :: rat) / of_int t \<le> 1 - 1 / 2 ^ 53"
proof -
  have t: "(0::rat) < of_int t" using assms(1) by simp
  have "(of_int t :: rat) \<le> of_int (2 ^ 53)" using assms(2) by (simp only: of_int_le_iff)
  then have "(1::rat) / 2 ^ 53 \<le> 1 / of_int t" using t by (simp add: frac_le)
  moreover have "(of_int a :: rat) \<le> of_int (t - 1)" using assms(3) by simp
  then have "(of_int a :: rat) / of_int t \<le> (of_int t - 1) / of_int t"
    using t by (simp add: divide_right_mono)
  moreover have "((of_int t :: rat) - 1) / of_int t = 1 - 1 / of_int t"
    using t by (simp add: diff_divide_distrib)
  ultimately show ?thesis by linarith
qed

lemma quotient_below_half:
  fixes a t :: int
  assumes "0 < t" "t \<le> 2 ^ 53" "2 * a < t"
  shows "(of_int a :: rat) / of_int t \<le> 1 / 2 - 1 / 2 ^ 54"
proof -
  have "(of_int (2 * a) :: rat) / of_int t \<le> 1 - 1 / 2 ^ 53"
    using assms by (rule quotient_below_1)
  then have "2 * ((of_int a :: rat) / of_int t) \<le> 1 - 1 / 2 ^ 53" by simp
  moreover have "(1::rat) - 1 / 2 ^ 53 = 2 * (1 / 2 - 1 / 2 ^ 54)" by simp
  ultimately have "2 * ((of_int a :: rat) / of_int t) \<le> 2 * (1 / 2 - 1 / 2 ^ 54)"
    by (simp only:)
  then show ?thesis by (rule mult_left_le_imp_le) simp
qed

lemma percent_int_exact:
  assumes "0 < t" "t \<le> 2 ^ 53" "percent (JInt a) (JInt t) = Inr p"
  shows "(100 \<le> p \<longleftrightarrow> t \<le> a) \<and> (p < 50 \<longleftrightarrow> 2 * a < t)"
proof -
  have p: "p = fl (fl (of_int a / of_int t) * 100)"
    using percent_int_Inr [OF assms(3)] by simp
  have t: "(0::rat) < of_int t" using assms(1) by simp
  have 1: "100 \<le> p" if "t \<le> a"
  proof -
    have "(of_int t :: rat) \<le> of_int a" using that by (simp only: of_int_le_iff)
    then have "(1::rat) \<le> of_int a / of_int t" using t by (simp add: pos_le_divide_eq)
    then show ?thesis unfolding p by (rule ratio_ge_100)
  qed
  have 2: "p < 100" if "a < t"
    unfolding p using quotient_below_1 [OF assms(1,2) that] by (rule ratio_less_100)
  have 3: "50 \<le> p" if "t \<le> 2 * a"
  proof -
    have "(of_int t :: rat) \<le> of_int (2 * a)" using that by (simp only: of_int_le_iff)
    then have "(1::rat) / 2 \<le> of_int a / of_int t" using t by (simp add: pos_le_divide_eq)
    then show ?thesis unfolding p by (rule ratio_ge_50)
  qed
  have 4: "p < 50" if "2 * a < t"
    unfolding p using quotient_below_half [OF assms(1,2) that] by (rule ratio_less_50)
  have "100 \<le> p \<longleftrightarrow> t \<le> a"
  proof (cases "t \<le> a")
    case True
    then show ?thesis using 1 by simp
  next
    case False
    then have "p < 100" using 2 by simp
    then show ?thesis using False by simp
  qed
  moreover have "p < 50 \<longleftrightarrow> 2 * a < t"
  proof (cases "2 * a < t")
    case True
    then show ?thesis using 4 by simp
  next
    case False
    then have "50 \<le> p" using 3 by simp
    then show ?thesis using False by simp
  qed
  ultimately show ?thesis by simp
qed

section \<open>The counting loop\<close>

lemma guard_Inl:
  "(if truthy v then py_gt v 0 else Inr False) = Inl e \<Longrightarrow> e = TypeError"
  by (cases v) (auto simp: py_gt_def split: if_splits)

lemma guard_Inr:
  "(if truthy v then py_gt v 0 else Inr False) = Inr b \<Longrightarrow>
   b = (case as_number v of Some n \<Rightarrow> 0 < value_of n | None \<Rightarrow> False)"
  by (cases v) (auto simp: py_gt_def split: if_splits)

lemma guard_positive:
  "as_number v = Some n \<Longrightarrow> 0 < value_of n \<Longrightarrow>
   (if truthy v then py_gt v 0 else Inr False) = Inr True"
  by (cases v) (auto simp: py_gt_def split: if_splits)

lemma has_positive_total_dict:
  "has_positive_total (JObj kvs) =
     (case as_number (case map_of kvs ''totalEpisodes'' of Some v \<Rightarrow> v | None \<Rightarrow> JInt 0) of
        Some n \<Rightarrow> 0 < value_of n | None \<Rightarrow> False)"
  by (simp add: has_positive_total_def split: option.splits)

lemma has_positive_total_not_dict:
  "has_positive_total s \<Longrightarrow> \<exists>kvs. s = JObj kvs"
  by (cases s) (simp_all add: has_positive_total_def)

lemma count_one_not_dict:
  "count_one s d = Inr d' \<Longrightarrow> \<exists>kvs. s = JObj kvs"
  by (cases s) (simp_all add: count_one_def)

lemma count_one_skip:
  assumes "\<not> has_positive_total s" "count_one s d = Inr d'"
  shows "d' = d"
proof -
  obtain kvs where s: "s = JObj kvs" using count_one_not_dict [OF assms(2)] by blast
  define t where "t = (case map_of kvs ''totalEpisodes'' of Some v \<Rightarrow> v | None \<Rightarrow> JInt 0)"
  obtain b where g: "(if truthy t then py_gt t 0 else Inr False) = Inr b"
    using assms(2) unfolding s count_one_def py_get.simps t_def [symmetric]
    by (cases "if truthy t then py_gt t 0 else Inr False") simp_all
  have "\<not> b"
    using guard_Inr [OF g] assms(1) by (simp add: s has_positive_total_dict t_def)
  then show ?thesis
    using assms(2) g unfolding s count_one_def py_get.simps t_def [symmetric] by simp
qed

lemma count_one_classify:
  assumes "has_positive_total s"
  shows "count_one s d =
     (case ratio s of Inl e \<Rightarrow> Inl e | Inr pct \<Rightarrow>
        Inr (if 100 \<le> pct then d\<lparr>complete' := complete' d + 1\<rparr>
             else if pct < 50 then d\<lparr>critical := critical d + 1\<rparr>
             else d\<lparr>incomplete := incomplete d + 1\<rparr>))"
proof -
  obtain kvs where s: "s = JObj kvs" using has_positive_total_not_dict [OF assms] by blast
  define t where "t = (case map_of kvs ''totalEpisodes'' of Some v \<Rightarrow> v | None \<Rightarrow> JInt 0)"
  obtain n where "as_number t = Some n" "0 < value_of n"
    using assms unfolding s has_positive_total_dict t_def [symmetric]
    by (cases "as_number t") simp_all
  then have g: "(if truthy t then py_gt t 0 else Inr False) = Inr True"
    by (rule guard_positive)
  show ?thesis
    unfolding s count_one_def ratio_def py_get.simps t_def [symmetric]
    by (simp add: g split: sum.splits)
qed

lemma count_one_counts:
  assumes "count_one s d = Inr d'"
  shows "complete' d' + incomplete d' + critical d' =
           complete' d + incomplete d + critical d + (if has_positive_total s then 1 else 0)"
    and "total' d' = total' d" and "series d' = series d"
    and "completion_pct d' = completion_pct d"
proof -
  have "(complete' d' + incomplete d' + critical d' =
           complete' d + incomplete d + critical d + (if has_positive_total s then 1 else 0))
        \<and> total' d' = total' d \<and> series d' = series d \<and> completion_pct d' = completion_pct d"
  proof (cases "has_positive_total s")
    case True
    show ?thesis
      using assms True unfolding count_one_classify [OF True]
      by (auto split: sum.splits if_splits)
  next
    case False
    then show ?thesis using count_one_skip [OF False assms] by simp
  qed
  then show "complete' d' + incomplete d' + critical d' =
           complete' d + incomplete d + critical d + (if has_positive_total s then 1 else 0)"
    and "total' d' = total' d" and "series d' = series d"
    and "completion_pct d' = completion_pct d" by simp_all
qed

lemma count_loop_counts:
  "count_loop ss d = Inr d' \<Longrightarrow>
   complete' d' + incomplete d' + critical d' =
     complete' d + incomplete d + critical d + int (length (filter has_positive_total ss))
   \<and> total' d' = total' d \<and> series d' = series d \<and> completion_pct d' = completion_pct d"
proof (induction ss arbitrary: d)
  case Nil
  then show ?case by simp
next
  case (Cons s ss)
  then obtain d1 where 1: "count_one s d = Inr d1" and 2: "count_loop ss d1 = Inr d'"
    by (auto split: sum.splits)
  show ?case
    using Cons.IH [OF 2] count_one_counts [OF 1] by simp
qed

lemma set_completion_pct_fields:
  "set_completion_pct d = Inr d' \<Longrightarrow>
   complete' d' = complete' d \<and> incomplete d' = incomplete d \<and> critical d' = critical d
   \<and> total' d' = total' d \<and> series d' = series d"
  by (auto simp: set_completion_pct_def Let_def split: if_splits sum.splits)

lemma fetch_200_list:
  "fetch (Post_Response 200 (Inr (JArr rs))) =
     (case count_loop rs (initial_data\<lparr>series := rs, total' := int (length rs)\<rparr>) of
        Inl e \<Rightarrow> Inl (Python e)
      | Inr d1 \<Rightarrow> (case set_completion_pct d1 of Inl e \<Rightarrow> Inl (Python e) | Inr d2 \<Rightarrow> Inr d2))"
  by (simp add: fetch_def)

lemma update_200_list:
  assumes "async_update_data (Post_Response 200 (Inr (JArr rs))) = Inr d"
  obtains d1 where "count_loop rs (initial_data\<lparr>series := rs, total' := int (length rs)\<rparr>) = Inr d1"
    and "set_completion_pct d1 = Inr d"
  using assms unfolding async_update_data_def fetch_200_list
  by (auto split: sum.splits)

lemma fetch_not_list:
  "\<forall>xs. j \<noteq> JArr xs \<Longrightarrow> fetch (Post_Response 200 (Inr j)) = Inr initial_data"
  by (cases j) (simp_all add: fetch_def initial_data_def set_completion_pct_def)

lemma update_cases:
  assumes "async_update_data r = Inr d"
  shows "d = initial_data \<or> (\<exists>rs. r = Post_Response 200 (Inr (JArr rs)))"
proof (cases r)
  case (Post_Fails f)
  then show ?thesis using assms by (simp add: async_update_data_def fetch_def)
next
  case (Post_Response status body)
  show ?thesis
  proof (cases "status = 200")
    case False
    then show ?thesis using assms Post_Response by (simp add: async_update_data_def fetch_def)
  next
    case True
    show ?thesis
    proof (cases body)
      case (Inl f)
      then show ?thesis using assms Post_Response True by (simp add: async_update_data_def fetch_def)
    next
      case (Inr j)
      show ?thesis
      proof (cases "\<exists>xs. j = JArr xs")
        case True
        then show ?thesis using Post_Response \<open>status = 200\<close> Inr by auto
      next
        case False
        then have "fetch (Post_Response 200 (Inr j)) = Inr initial_data"
          by (intro fetch_not_list) simp
        then show ?thesis using assms Post_Response \<open>status = 200\<close> Inr
          by (simp add: async_update_data_def)
      qed
    qed
  qed
qed

subsection \<open>The running example\<close>

lemma percent_10_10: "percent (JInt 10) (JInt 10) = Inr 100" by code_simp
lemma percent_3_10: "percent (JInt 3) (JInt 10) = Inr 30" by code_simp
lemma percent_6_10: "percent (JInt 6) (JInt 10) = Inr 60" by code_simp
lemma percent_1_3: "percent (JInt 1) (JInt 3) = Inr (2345624805922133 / 70368744177664)" by code_simp
lemma round_1_3: "py_round (2345624805922133 / 70368744177664) (Suc 0) = 2343279181116211 / 70368744177664"
  by code_simp

lemma example_count_loop:
  "count_loop example_series (initial_data\<lparr>series := example_series, total' := 5\<rparr>) =
     Inr \<lparr>total' = 5, complete' = 1, incomplete = 1, critical = 1, completion_pct = 0,
          series = example_series\<rparr>"
  unfolding example_series_def [symmetric]
  by (simp add: example_series_def series_record_def count_one_def py_gt_def initial_data_def
      percent_10_10 percent_3_10 percent_6_10)

lemma example_update:
  "async_update_data (Post_Response 200 (Inr (JArr example_series))) =
     Inr \<lparr>total' = 5, complete' = 1, incomplete = 1, critical = 1,
          completion_pct = 2343279181116211 / 70368744177664, series = example_series\<rparr>"
proof -
  have l: "int (length example_series) = 5" by (simp add: example_series_def)
  show ?thesis
    unfolding async_update_data_def fetch_200_list l example_count_loop
    by (simp add: set_completion_pct_def percent_1_3 round_1_3)
qed

lemma example_positive:
  "filter has_positive_total example_series =
     [series_record 10 10, series_record 3 10, series_record 6 10]"
  by (simp add: example_series_def series_record_def has_positive_total_def)

lemma count_one_same_counts:
  assumes "has_positive_total s" "count_one s d = Inr d'" "same_counts d e"
  shows "\<exists>e'. count_one s e = Inr e' \<and> same_counts d' e'"
  using assms unfolding count_one_classify [OF assms(1)] same_counts_def
  by (auto split: sum.splits if_splits)

lemma count_loop_filter:
  "count_loop ss d = Inr d' \<Longrightarrow> same_counts d e \<Longrightarrow>
   \<exists>e'. count_loop (filter has_positive_total ss) e = Inr e' \<and> same_counts d' e'"
proof (induction ss arbitrary: d e)
  case Nil
  then show ?case by simp
next
  case (Cons s ss)
  then obtain d1 where 1: "count_one s d = Inr d1" and 2: "count_loop ss d1 = Inr d'"
    by (auto split: sum.splits)
  show ?case
  proof (cases "has_positive_total s")
    case True
    obtain e1 where 3: "count_one s e = Inr e1" and 4: "same_counts d1 e1"
      using count_one_same_counts [OF True 1 Cons.prems(2)] by blast
    show ?thesis using Cons.IH [OF 2 4] True 3 by simp
  next
    case False
    have "d1 = d" using count_one_skip [OF False 1] .
    then show ?thesis using Cons.IH [of d e] 2 Cons.prems(2) False by simp
  qed
qed

lemma set_completion_pct_same_counts:
  "set_completion_pct d = Inr d' \<Longrightarrow> same_counts d e \<Longrightarrow>
   \<exists>e'. set_completion_pct e = Inr e' \<and> same_counts d' e'"
  by (auto simp: set_completion_pct_def same_counts_def Let_def split: if_splits sum.splits)

subsection \<open>Overflow and division by zero\<close>

lemma fl_abs: "\<bar>fl x\<bar> = fl \<bar>x\<bar>"
proof (cases "0 \<le> x")
  case True
  then have "0 \<le> fl x" using fl_mono [of 0 x] by (simp add: fl_zero)
  then show ?thesis using True by simp
next
  case False
  then have "fl x \<le> 0" using fl_mono [of x 0] by (simp add: fl_zero)
  then show ?thesis using False by (simp add: fl_minus)
qed

lemma not_too_large_fl:
  assumes "\<bar>x\<bar> \<le> 2 ^ 53"
  shows "\<not> too_large (fl x)"
proof -
  have "fl \<bar>x\<bar> \<le> fl (2 ^ 53)" using assms by (rule fl_mono)
  then have "\<bar>fl x\<bar> \<le> 2 ^ 53" by (simp only: fl_abs fl_2_53)
  moreover have "(2::rat) ^ 53 < 2 ^ 1024" by simp
  ultimately show ?thesis unfolding too_large_def by linarith
qed

lemma percent_int_defined:
  fixes a t :: int
  assumes "0 < t" "\<bar>a\<bar> \<le> 2 ^ 53"
  shows "percent (JInt a) (JInt t) = Inr (fl (fl (of_int a / of_int t) * 100))"
proof -
  have "1 \<le> t" using assms(1) by simp
  then have "(of_int 1 :: rat) \<le> of_int t" by (simp only: of_int_le_iff)
  then have t: "(1::rat) \<le> of_int t" by simp
  have "\<bar>(of_int a :: rat) / of_int t\<bar> = \<bar>of_int a\<bar> / of_int t" using t by simp
  also have "\<dots> \<le> \<bar>of_int a\<bar> / 1" using t by (intro divide_left_mono) simp_all
  also have "\<dots> = of_int \<bar>a\<bar>" by simp
  also have "\<dots> \<le> of_int (2 ^ 53)" using assms(2) by (simp only: of_int_le_iff)
  finally have "\<bar>(of_int a :: rat) / of_int t\<bar> \<le> 2 ^ 53" by simp
  then have "\<not> too_large (fl (of_int a / of_int t))" by (rule not_too_large_fl)
  then show ?thesis using assms(1)
    by (simp add: percent_def py_truediv_def int_truediv_def times_100_def Let_def)
qed

lemma percent_zero:
  assumes "as_number t = Some n" "0 < value_of n"
  shows "percent (JInt 0) t = Inr 0"
proof (cases n)
  case (PyInt j)
  then have "j \<noteq> 0" using assms(2) by auto
  then show ?thesis using assms(1) PyInt
    by (simp add: percent_def py_truediv_def int_truediv_def times_100_def fl_zero too_large_def)
next
  case (PyFloat q)
  then have "q \<noteq> 0" using assms(2) by auto
  then show ?thesis using assms(1) PyFloat
    by (simp add: percent_def py_truediv_def float_truediv_def times_100_def fl_zero too_large_def)
qed

lemma py_truediv_no_zero_division:
  assumes "as_number t = Some n" "0 < value_of n"
  shows "py_truediv a t \<noteq> Inl ZeroDivisionError"
proof (cases "as_number a")
  case None
  then show ?thesis by (simp add: py_truediv_def)
next
  case (Some x)
  show ?thesis
  proof (cases n)
    case (PyFloat q)
    then have "q \<noteq> 0" using assms(2) by auto
    then show ?thesis using assms(1) Some PyFloat
      by (cases x) (auto simp: py_truediv_def float_truediv_def Let_def split: sum.splits)
  next
    case (PyInt j)
    then have j: "j \<noteq> 0" using assms(2) by auto
    then have "fl (of_int j) \<noteq> 0" by (intro fl_nonzero) simp
    then show ?thesis using assms(1) Some PyInt j
      by (cases x) (auto simp: py_truediv_def float_truediv_def int_truediv_def Let_def
          split: sum.splits)
  qed
qed

lemma count_one_no_zero_division: "count_one s d \<noteq> Inl ZeroDivisionError"
proof (cases "has_positive_total s")
  case True
  then obtain kvs where s: "s = JObj kvs" using has_positive_total_not_dict by blast
  define t where "t = (case map_of kvs ''totalEpisodes'' of Some v \<Rightarrow> v | None \<Rightarrow> JInt 0)"
  obtain n where "as_number t = Some n" "0 < value_of n"
    using True unfolding s has_positive_total_dict t_def [symmetric]
    by (cases "as_number t") simp_all
  then have "py_truediv a t \<noteq> Inl ZeroDivisionError" for a
    by (rule py_truediv_no_zero_division)
  then have p: "percent a t \<noteq> Inl ZeroDivisionError" for a
    by (auto simp: percent_def split: sum.splits)
  define a where "a = (case map_of kvs ''episode_count'' of Some v \<Rightarrow> v | None \<Rightarrow> JInt 0)"
  have r: "ratio s = percent a t"
    unfolding ratio_def s py_get.simps t_def [symmetric] a_def [symmetric] by simp
  show ?thesis
    unfolding count_one_classify [OF True, of d] r using p [of a]
    by (auto split: sum.splits)
next
  case False
  show ?thesis
  proof (cases s)
    case (JObj kvs)
    define t where "t = (case map_of kvs ''totalEpisodes'' of Some v \<Rightarrow> v | None \<Rightarrow> JInt 0)"
    show ?thesis
    proof (cases "if truthy t then py_gt t 0 else Inr False")
      case (Inl e)
      then have "e = TypeError" by (rule guard_Inl)
      then show ?thesis using Inl
        unfolding JObj count_one_def py_get.simps t_def [symmetric] by simp
    next
      case (Inr b)
      have "\<not> b" using guard_Inr [OF Inr] False
        by (simp add: JObj has_positive_total_dict t_def)
      then show ?thesis using Inr
        unfolding JObj count_one_def py_get.simps t_def [symmetric] by simp
    qed
  qed (simp_all add: count_one_def)
qed

lemma count_loop_no_zero_division: "count_loop ss d \<noteq> Inl ZeroDivisionError"
  by (induction ss arbitrary: d) (auto simp: count_one_no_zero_division split: sum.splits)

lemma set_completion_pct_no_zero_division: "set_completion_pct d \<noteq> Inl ZeroDivisionError"
  by (auto simp: set_completion_pct_def percent_def py_truediv_def int_truediv_def Let_def
      split: sum.splits if_splits)

lemma fetch_no_zero_division: "fetch r \<noteq> Inl (Python ZeroDivisionError)"
proof (cases r)
  case (Post_Fails f)
  then show ?thesis by (simp add: fetch_def)
next
  case (Post_Response status body)
  show ?thesis
  proof (cases body)
    case (Inl f)
    then show ?thesis using Post_Response by (simp add: fetch_def)
  next
    case (Inr j)
    then show ?thesis using Post_Response
      by (auto simp: fetch_def Let_def count_loop_no_zero_division
          set_completion_pct_no_zero_division split: sum.splits)
  qed
qed

lemma except_zero_division: "except x = ZeroDivisionError \<Longrightarrow> x = Python ZeroDivisionError"
  by (cases x rule: except.cases) simp_all

subsection \<open>The thresholds as exact ratios\<close>

lemma exact_ratio_ge_100:
  fixes a t :: int
  assumes "0 < t"
  shows "100 \<le> (of_int a / of_int t * 100 :: rat) \<longleftrightarrow> t \<le> a"
proof -
  have t: "(0::rat) < of_int t" using assms by simp
  have "100 \<le> (of_int a / of_int t * 100 :: rat) \<longleftrightarrow> (of_int t :: rat) \<le> of_int a"
    using t by (simp add: pos_le_divide_eq)
  then show ?thesis by (simp only: of_int_le_iff)
qed

lemma exact_ratio_less_50:
  fixes a t :: int
  assumes "0 < t"
  shows "(of_int a / of_int t * 100 :: rat) < 50 \<longleftrightarrow> 2 * a < t"
proof -
  have t: "(0::rat) < of_int t" using assms by simp
  have "(of_int a / of_int t * 100 :: rat) < 50 \<longleftrightarrow> (of_int (2 * a) :: rat) < of_int t"
    using t by (simp add: pos_divide_less_eq)
  then show ?thesis by (simp only: of_int_less_iff)
qed

subsection \<open>The ratio of two integers, and two ratios that the rounding moves\<close>

lemma percent_below_2_54: "percent (JInt 18014398509481983) (JInt 18014398509481984) = Inr 100"
  by code_simp
lemma percent_below_half_2_64:
  "percent (JInt 9223372036854775807) (JInt 18446744073709551615) = Inr 50"
  by code_simp

lemma percent_int_eq:
  "percent (JInt a) (JInt t) =
     (if t = 0 then Inl ZeroDivisionError
      else if too_large (fl (of_int a / of_int t)) then Inl OverflowError
      else Inr (fl (fl (of_int a / of_int t) * 100)))"
  by (simp add: percent_def py_truediv_def int_truediv_def times_100_def Let_def)

section \<open>The refresh step and the probes\<close>

lemma update_raises_keeps_data:
  "async_update_data r = Inl e \<Longrightarrow> async_refresh c r = c\<lparr>last_update_success := False\<rparr>"
  by (simp add: async_refresh_def)

lemma detect_loop_find:
  "detect_loop probe hs =
     map_option (\<lambda>h. (h, ADDON_PORT)) (find (\<lambda>h. probe h = Probe_Status 200) hs)"
  by (induction hs) (auto split: probe_outcome.splits)

lemma FALLBACK_HOSTNAMES_eq:
  "FALLBACK_HOSTNAMES =
     [''e81ba94f-series-complete-plex'', ''local-series-complete-plex'', ''series-complete-plex'']"
  by (simp add: FALLBACK_HOSTNAMES_def ADDON_HASH_PREFIX_def ADDON_SLUG_def)

section \<open>The claims\<close>

text \<open>
  C1, as the code has it. If the POST raises a transport or timeout error, or reading
  the body of the 200 response with \<^verbatim>\<open>resp.json()\<close> raises one (both are inside the
  same \<^verbatim>\<open>try\<close>), the update raises \<^verbatim>\<open>UpdateFailed\<close>, and the refresh leaves the
  cached snapshot (its series list included) as it was and marks the update as failed:
  nothing is published for that tick.
\<close>

theorem transport_failure_keeps_snapshot:
  "async_update_data (Post_Fails f) = Inl UpdateFailed
   \<and> async_refresh c (Post_Fails f) = c\<lparr>last_update_success := False\<rparr>
   \<and> data (async_refresh c (Post_Fails f)) = data c
   \<and> \<not> last_update_success (async_refresh c (Post_Fails f))
   \<and> async_update_data (Post_Response 200 (Inl Body_Client_Error)) = Inl UpdateFailed
   \<and> async_refresh c (Post_Response 200 (Inl Body_Client_Error)) = c\<lparr>last_update_success := False\<rparr>
   \<and> data (async_refresh c (Post_Response 200 (Inl Body_Client_Error))) = data c
   \<and> \<not> last_update_success (async_refresh c (Post_Response 200 (Inl Body_Client_Error)))
   \<and> async_update_data (Post_Response 200 (Inl Body_Timeout_Error)) = Inl UpdateFailed
   \<and> async_refresh c (Post_Response 200 (Inl Body_Timeout_Error)) = c\<lparr>last_update_success := False\<rparr>
   \<and> data (async_refresh c (Post_Response 200 (Inl Body_Timeout_Error))) = data c
   \<and> \<not> last_update_success (async_refresh c (Post_Response 200 (Inl Body_Timeout_Error)))"
  by (simp add: async_refresh_def async_update_data_def fetch_def)

text \<open>
  C1 as stated also covers a response whose status is not 200, and there it fails: the
  \<^verbatim>\<open>if resp.status == 200\<close> has no \<^verbatim>\<open>else\<close>, so the function returns the dict it
  started with, nothing is raised, and the refresh replaces the cached snapshot of five
  series by the all-zero one.
\<close>

theorem non_200_replaces_snapshot:
  "async_update_data (Post_Response 500 (Inr JNull)) = Inr initial_data
   \<and> async_update_data (Post_Response 500 (Inr JNull)) \<noteq> Inl UpdateFailed
   \<and> data (async_refresh cached_coordinator (Post_Response 500 (Inr JNull))) = Some initial_data
   \<and> data (async_refresh cached_coordinator (Post_Response 500 (Inr JNull))) \<noteq> data cached_coordinator
   \<and> last_update_success (async_refresh cached_coordinator (Post_Response 500 (Inr JNull)))"
  by (simp add: async_refresh_def async_update_data_def fetch_def cached_coordinator_def
      initial_data_def)

text \<open>
  C2. For every list of records returned with status 200, the snapshot computed from it has
  \<open>complete + incomplete + critical\<close> equal to the number of records whose
  \<^verbatim>\<open>totalEpisodes\<close> field is above zero. The other records (field at most zero, or
  absent) contribute to no bucket: the poll of the list without them has the same
  breakdown and the same percentage.
\<close>

theorem classified_count:
  assumes "async_update_data (Post_Response 200 (Inr (JArr rs))) = Inr d"
  shows "complete' d + incomplete d + critical d = int (length (filter has_positive_total rs))
    \<and> (\<exists>d'. async_update_data (Post_Response 200 (Inr (JArr (filter has_positive_total rs)))) = Inr d'
           \<and> complete' d' = complete' d \<and> incomplete d' = incomplete d
           \<and> critical d' = critical d \<and> completion_pct d' = completion_pct d)"
proof -
  let ?start = "\<lambda>xs. initial_data\<lparr>series := xs, total' := int (length xs)\<rparr>"
  obtain d1 where 1: "count_loop rs (?start rs) = Inr d1" and 2: "set_completion_pct d1 = Inr d"
    using assms by (rule update_200_list)
  have "complete' d1 + incomplete d1 + critical d1 = int (length (filter has_positive_total rs))"
    using count_loop_counts [OF 1] by (simp add: initial_data_def)
  then have a: "complete' d + incomplete d + critical d = int (length (filter has_positive_total rs))"
    using set_completion_pct_fields [OF 2] by simp
  have "same_counts (?start rs) (?start (filter has_positive_total rs))"
    by (simp add: same_counts_def)
  then obtain e1 where 3: "count_loop (filter has_positive_total rs) (?start (filter has_positive_total rs)) = Inr e1"
    and 4: "same_counts d1 e1"
    using count_loop_filter [OF 1] by blast
  obtain e where 5: "set_completion_pct e1 = Inr e" and 6: "same_counts d e"
    using set_completion_pct_same_counts [OF 2 4] by blast
  have "async_update_data (Post_Response 200 (Inr (JArr (filter has_positive_total rs)))) = Inr e"
    unfolding async_update_data_def fetch_200_list by (simp add: 3 5)
  then show ?thesis using a 6 by (auto simp: same_counts_def)
qed

theorem classified_count_witness:
  "async_update_data (Post_Response 200 (Inr (JArr example_series))) =
     Inr \<lparr>total' = 5, complete' = 1, incomplete = 1, critical = 1,
          completion_pct = 2343279181116211 / 70368744177664, series = example_series\<rparr>
   \<and> filter has_positive_total example_series =
        [series_record 10 10, series_record 3 10, series_record 6 10]
   \<and> (1::int) + 1 + 1 = int (length (filter has_positive_total example_series))"
  using classified_count [OF example_update] example_update example_positive by simp

text \<open>
  C3, as the code has it. A record whose \<^verbatim>\<open>totalEpisodes\<close> is above zero is classified
  by the ratio \<^verbatim>\<open>episode_count / totalEpisodes * 100\<close> as Python computes it, in
  binary64: at least 100 increments \<^verbatim>\<open>complete\<close>, below 50 increments \<^verbatim>\<open>critical\<close>,
  anything else increments \<^verbatim>\<open>incomplete\<close>. For integer fields the computed ratio is the
  quotient rounded to 53 bits, times 100, rounded again (and \<^verbatim>\<open>OverflowError\<close> when the
  quotient is too large for a float). When both fields are integers of magnitude at most
  \<open>2 ^ 53\<close>, the bucket is the one that the exact ratio gives; so 10 of 10 is complete,
  3 of 10 is critical and 6 of 10 is incomplete.
\<close>

theorem classification_by_ratio:
  assumes "has_positive_total s"
  shows "count_one s d =
     (case ratio s of Inl e \<Rightarrow> Inl e | Inr pct \<Rightarrow>
        Inr (if 100 \<le> pct then d\<lparr>complete' := complete' d + 1\<rparr>
             else if pct < 50 then d\<lparr>critical := critical d + 1\<rparr>
             else d\<lparr>incomplete := incomplete d + 1\<rparr>))
   \<and> (\<forall>a t. py_get s ''episode_count'' (JInt 0) = Inr (JInt a) \<longrightarrow>
             py_get s ''totalEpisodes'' (JInt 0) = Inr (JInt t) \<longrightarrow>
        count_one s d =
          (if too_large (fl (of_int a / of_int t)) then Inl OverflowError
           else Inr (if 100 \<le> fl (fl (of_int a / of_int t) * 100)
                     then d\<lparr>complete' := complete' d + 1\<rparr>
                     else if fl (fl (of_int a / of_int t) * 100) < 50
                     then d\<lparr>critical := critical d + 1\<rparr>
                     else d\<lparr>incomplete := incomplete d + 1\<rparr>)))
   \<and> (\<forall>a t. py_get s ''episode_count'' (JInt 0) = Inr (JInt a) \<longrightarrow>
             py_get s ''totalEpisodes'' (JInt 0) = Inr (JInt t) \<longrightarrow>
             \<bar>a\<bar> \<le> 2 ^ 53 \<longrightarrow> t \<le> 2 ^ 53 \<longrightarrow>
        count_one s d =
          Inr (if 100 \<le> (of_int a / of_int t * 100 :: rat)
               then d\<lparr>complete' := complete' d + 1\<rparr>
               else if (of_int a / of_int t * 100 :: rat) < 50
               then d\<lparr>critical := critical d + 1\<rparr>
               else d\<lparr>incomplete := incomplete d + 1\<rparr>))"
proof (intro conjI allI impI)
  show c: "count_one s d =
     (case ratio s of Inl e \<Rightarrow> Inl e | Inr pct \<Rightarrow>
        Inr (if 100 \<le> pct then d\<lparr>complete' := complete' d + 1\<rparr>
             else if pct < 50 then d\<lparr>critical := critical d + 1\<rparr>
             else d\<lparr>incomplete := incomplete d + 1\<rparr>))"
    using assms by (rule count_one_classify)
  obtain kvs where s: "s = JObj kvs" using has_positive_total_not_dict [OF assms] by blast
  {
    fix a t
    assume a: "py_get s ''episode_count'' (JInt 0) = Inr (JInt a)"
      and t: "py_get s ''totalEpisodes'' (JInt 0) = Inr (JInt t)"
    have tpos: "0 < t"
      using assms t unfolding s has_positive_total_dict by simp
    have r: "ratio s = percent (JInt a) (JInt t)" by (simp add: ratio_def a t)
    show "count_one s d =
          (if too_large (fl (of_int a / of_int t)) then Inl OverflowError
           else Inr (if 100 \<le> fl (fl (of_int a / of_int t) * 100)
                     then d\<lparr>complete' := complete' d + 1\<rparr>
                     else if fl (fl (of_int a / of_int t) * 100) < 50
                     then d\<lparr>critical := critical d + 1\<rparr>
                     else d\<lparr>incomplete := incomplete d + 1\<rparr>))"
      unfolding c r percent_int_eq using tpos by simp
  }
  {
    fix a t
    assume a: "py_get s ''episode_count'' (JInt 0) = Inr (JInt a)"
      and t: "py_get s ''totalEpisodes'' (JInt 0) = Inr (JInt t)"
      and ab: "\<bar>a\<bar> \<le> 2 ^ 53" and tb: "t \<le> 2 ^ 53"
    have tpos: "0 < t"
      using assms t unfolding s has_positive_total_dict by simp
    define p where "p = fl (fl (of_int a / of_int t) * 100)"
    have p: "percent (JInt a) (JInt t) = Inr p"
      unfolding p_def using tpos ab by (rule percent_int_defined)
    have r: "ratio s = Inr p" by (simp add: ratio_def a t p)
    note e = percent_int_exact [OF tpos tb p]
    show "count_one s d =
          Inr (if 100 \<le> (of_int a / of_int t * 100 :: rat)
               then d\<lparr>complete' := complete' d + 1\<rparr>
               else if (of_int a / of_int t * 100 :: rat) < 50
               then d\<lparr>critical := critical d + 1\<rparr>
               else d\<lparr>incomplete := incomplete d + 1\<rparr>)"
      unfolding c r exact_ratio_ge_100 [OF tpos] exact_ratio_less_50 [OF tpos]
      using e by simp
  }
qed

theorem classification_by_ratio_witness:
  "has_positive_total (series_record 10 10)
   \<and> count_one (series_record 10 10) initial_data = Inr (initial_data\<lparr>complete' := 1\<rparr>)
   \<and> has_positive_total (series_record 3 10)
   \<and> count_one (series_record 3 10) initial_data = Inr (initial_data\<lparr>critical := 1\<rparr>)
   \<and> has_positive_total (series_record 6 10)
   \<and> count_one (series_record 6 10) initial_data = Inr (initial_data\<lparr>incomplete := 1\<rparr>)
   \<and> ratio (series_record 10 10) = Inr 100
   \<and> ratio (series_record 3 10) = Inr 30
   \<and> ratio (series_record 6 10) = Inr 60"
proof -
  have h: "has_positive_total (series_record a 10)" for a
    by (simp add: series_record_def has_positive_total_def)
  have g: "py_get (series_record a 10) ''episode_count'' (JInt 0) = Inr (JInt a)"
    "py_get (series_record a 10) ''totalEpisodes'' (JInt 0) = Inr (JInt 10)" for a
    by (simp_all add: series_record_def)
  note c = classification_by_ratio [THEN conjunct2, THEN conjunct2, rule_format]
  have 1: "count_one (series_record 10 10) initial_data = Inr (initial_data\<lparr>complete' := 1\<rparr>)"
    using c [OF h [of 10] g [of 10], of initial_data] by (simp add: initial_data_def)
  have 2: "count_one (series_record 3 10) initial_data = Inr (initial_data\<lparr>critical := 1\<rparr>)"
    using c [OF h [of 3] g [of 3], of initial_data] by (simp add: initial_data_def)
  have 3: "count_one (series_record 6 10) initial_data = Inr (initial_data\<lparr>incomplete := 1\<rparr>)"
    using c [OF h [of 6] g [of 6], of initial_data] by (simp add: initial_data_def)
  have 4: "ratio (series_record 10 10) = Inr 100" "ratio (series_record 3 10) = Inr 30"
    "ratio (series_record 6 10) = Inr 60"
    by (simp_all add: ratio_def series_record_def percent_10_10 percent_3_10 percent_6_10)
  show ?thesis using h 1 2 3 4 by simp
qed

text \<open>
  C3 as stated, with the ratio read as the number \<open>episode_count / totalEpisodes * 100\<close>,
  fails beyond \<open>2 ^ 53\<close>: \<open>2 ^ 54 - 1\<close> episodes of \<open>2 ^ 54\<close> are below 100 percent and
  counted as complete, and \<open>2 ^ 63 - 1\<close> of \<open>2 ^ 64 - 1\<close> are below 50 percent and counted
  as incomplete, because the computed ratios are exactly 100.0 and 50.0.
\<close>

theorem rounded_ratio_differs:
  "has_positive_total (series_record 18014398509481983 18014398509481984)
   \<and> (of_int 18014398509481983 / of_int 18014398509481984 * 100 :: rat) < 100
   \<and> count_one (series_record 18014398509481983 18014398509481984) initial_data =
       Inr (initial_data\<lparr>complete' := 1\<rparr>)
   \<and> has_positive_total (series_record 9223372036854775807 18446744073709551615)
   \<and> (of_int 9223372036854775807 / of_int 18446744073709551615 * 100 :: rat) < 50
   \<and> count_one (series_record 9223372036854775807 18446744073709551615) initial_data =
       Inr (initial_data\<lparr>incomplete := 1\<rparr>)"
  by (simp add: series_record_def has_positive_total_def count_one_def py_gt_def
      initial_data_def percent_below_2_54 percent_below_half_2_64)

text \<open>
  C4. For every successful poll, \<^verbatim>\<open>completion_pct\<close> is
  \<^verbatim>\<open>round(complete / (complete + incomplete + critical) * 100, 1)\<close> when at least one
  record was classified, and \<open>0.0\<close> when none was (the empty list included).
\<close>

theorem completion_pct_formula:
  assumes "async_update_data r = Inr d"
  shows "completion_pct d =
     (if 0 < complete' d + incomplete d + critical d
      then py_round (fl (fl (of_int (complete' d)
                              / of_int (complete' d + incomplete d + critical d)) * 100)) 1
      else 0)"
proof -
  consider "d = initial_data" | rs where "r = Post_Response 200 (Inr (JArr rs))"
    using update_cases [OF assms] by blast
  then show ?thesis
  proof cases
    case 1
    then show ?thesis by (simp add: initial_data_def)
  next
    case 2
    let ?start = "initial_data\<lparr>series := rs, total' := int (length rs)\<rparr>"
    obtain d1 where 3: "count_loop rs ?start = Inr d1" and 4: "set_completion_pct d1 = Inr d"
      using assms unfolding 2 by (rule update_200_list)
    have z: "completion_pct d1 = 0"
      using count_loop_counts [OF 3] by (simp add: initial_data_def)
    note f = set_completion_pct_fields [OF 4]
    show ?thesis
    proof (cases "0 < complete' d1 + incomplete d1 + critical d1")
      case False
      then have "d = d1" using 4 by (simp add: set_completion_pct_def)
      then show ?thesis using False z by simp
    next
      case True
      then obtain x where 5: "percent (JInt (complete' d1)) (JInt (complete' d1 + incomplete d1 + critical d1)) = Inr x"
        and 6: "d = d1\<lparr>completion_pct := py_round x 1\<rparr>"
        using 4 by (auto simp: set_completion_pct_def Let_def split: sum.splits)
      show ?thesis using percent_int_Inr [OF 5] 6 True by simp
    qed
  qed
qed

theorem completion_pct_formula_witness:
  "async_update_data (Post_Response 200 (Inr (JArr example_series))) =
     Inr \<lparr>total' = 5, complete' = 1, incomplete = 1, critical = 1,
          completion_pct = 2343279181116211 / 70368744177664, series = example_series\<rparr>
   \<and> py_round (fl (fl (1 / 3) * 100)) 1 = 2343279181116211 / 70368744177664
   \<and> async_update_data (Post_Response 200 (Inr (JArr []))) = Inr initial_data
   \<and> completion_pct initial_data = 0"
proof -
  have e: "async_update_data (Post_Response 200 (Inr (JArr []))) = Inr initial_data"
    by (simp add: async_update_data_def fetch_def set_completion_pct_def initial_data_def)
  show ?thesis
    using completion_pct_formula [OF example_update] completion_pct_formula [OF e] example_update e
    by (simp add: initial_data_def)
qed

text \<open>
  C5. Every snapshot the update function returns satisfies
  \<open>complete + incomplete + critical \<le> total\<close>, where \<open>total\<close> is the length of the
  parsed series list (so a record with \<^verbatim>\<open>totalEpisodes\<close> at most zero is counted in
  \<open>total\<close> and left out of the breakdown).
\<close>

theorem breakdown_within_total:
  assumes "async_update_data r = Inr d"
  shows "complete' d + incomplete d + critical d \<le> total' d \<and> total' d = int (length (series d))"
proof -
  consider "d = initial_data" | rs where "r = Post_Response 200 (Inr (JArr rs))"
    using update_cases [OF assms] by blast
  then show ?thesis
  proof cases
    case 1
    then show ?thesis by (simp add: initial_data_def)
  next
    case 2
    let ?start = "initial_data\<lparr>series := rs, total' := int (length rs)\<rparr>"
    obtain d1 where 3: "count_loop rs ?start = Inr d1" and 4: "set_completion_pct d1 = Inr d"
      using assms unfolding 2 by (rule update_200_list)
    have "complete' d1 + incomplete d1 + critical d1 = int (length (filter has_positive_total rs))"
      and "total' d1 = int (length rs)" and "series d1 = rs"
      using count_loop_counts [OF 3] by (simp_all add: initial_data_def)
    moreover have "length (filter has_positive_total rs) \<le> length rs" by simp
    ultimately show ?thesis using set_completion_pct_fields [OF 4] by simp
  qed
qed

theorem breakdown_within_total_witness:
  "async_update_data (Post_Response 200 (Inr (JArr example_series))) =
     Inr \<lparr>total' = 5, complete' = 1, incomplete = 1, critical = 1,
          completion_pct = 2343279181116211 / 70368744177664, series = example_series\<rparr>
   \<and> (1::int) + 1 + 1 \<le> 5 \<and> (5::int) = int (length example_series)"
  using breakdown_within_total [OF example_update] example_update by simp

text \<open>
  C6. Auto-detection probes the three fixed hostnames in their fixed order and returns
  the first one, with the add-on port 3000, whose probe answers with status 200; a
  hostname whose probe raises or times out, or answers with another status, is skipped,
  and the result is \<^verbatim>\<open>None\<close> when no hostname answers 200.
\<close>

theorem detect_app_first_answering:
  "detect_app probe =
     map_option (\<lambda>h. (h, 3000))
       (find (\<lambda>h. probe h = Probe_Status 200)
          [''e81ba94f-series-complete-plex'', ''local-series-complete-plex'',
           ''series-complete-plex''])"
  unfolding detect_app_def detect_loop_find FALLBACK_HOSTNAMES_eq ADDON_PORT_def ..

theorem detect_app_first_answering_witness:
  "detect_app example_probe = Some (''series-complete-plex'', 3000)
   \<and> detect_app (\<lambda>h. Probe_Fails Client_Error) = None
   \<and> detect_app (\<lambda>h. Probe_Status 200) = Some (''e81ba94f-series-complete-plex'', 3000)"
  using detect_app_first_answering [of example_probe]
    detect_app_first_answering [of "\<lambda>h. Probe_Fails Client_Error"]
    detect_app_first_answering [of "\<lambda>h. Probe_Status 200"]
  by (simp add: example_probe_def)

text \<open>
  C7. Each of the five sensors returns \<^verbatim>\<open>None\<close> while the coordinator has no
  snapshot, and the corresponding field of the snapshot (total, complete, incomplete,
  critical, completion_pct, in the order of \<^verbatim>\<open>SENSORS\<close>) once there is one.
  \<open>native_value\<close> is a function of the coordinator that returns a value only: it has no
  state to change.
\<close>

theorem sensors_project_snapshot:
  "map (native_value \<lparr>data = None, last_update_success = b\<rparr>) SENSORS =
     [None, None, None, None, None]
   \<and> map (native_value \<lparr>data = Some d, last_update_success = b\<rparr>) SENSORS =
     [Some (IntValue (total' d)), Some (IntValue (complete' d)),
      Some (IntValue (incomplete d)), Some (IntValue (critical d)),
      Some (FloatValue (completion_pct d))]
   \<and> map key SENSORS = [''total'', ''complete'', ''incomplete'', ''critical'', ''completion'']"
  by (simp add: SENSORS_def native_value_def)

text \<open>
  C8. A missing \<^verbatim>\<open>totalEpisodes\<close> or \<^verbatim>\<open>episode_count\<close> key is read as 0: the loop
  treats the record as the same record with the key set to 0. So a record with no
  \<^verbatim>\<open>totalEpisodes\<close> key leaves the breakdown alone, a record with \<^verbatim>\<open>totalEpisodes\<close>
  above zero and no \<^verbatim>\<open>episode_count\<close> key is critical, and \<^verbatim>\<open>total\<close> counts every
  record.
\<close>

theorem missing_fields_read_as_zero:
  "(map_of kvs k = None \<longrightarrow> count_one (JObj kvs) d = count_one (JObj ((k, JInt 0) # kvs)) d)
   \<and> (map_of kvs ''totalEpisodes'' = None \<longrightarrow> count_one (JObj kvs) d = Inr d)
   \<and> (has_positive_total (JObj kvs) \<longrightarrow> map_of kvs ''episode_count'' = None \<longrightarrow>
        count_one (JObj kvs) d = Inr (d\<lparr>critical := critical d + 1\<rparr>))
   \<and> (async_update_data (Post_Response 200 (Inr (JArr rs))) = Inr d' \<longrightarrow>
        total' d' = int (length rs))"
proof (intro conjI impI)
  assume "map_of kvs k = None"
  then have "py_get (JObj ((k, JInt 0) # kvs)) k' (JInt 0) = py_get (JObj kvs) k' (JInt 0)" for k'
    by simp
  then show "count_one (JObj kvs) d = count_one (JObj ((k, JInt 0) # kvs)) d"
    by (simp only: count_one_def)
next
  assume "map_of kvs ''totalEpisodes'' = None"
  then show "count_one (JObj kvs) d = Inr d"
    by (simp add: count_one_def)
next
  assume pos: "has_positive_total (JObj kvs)" and none: "map_of kvs ''episode_count'' = None"
  define t where "t = (case map_of kvs ''totalEpisodes'' of Some v \<Rightarrow> v | None \<Rightarrow> JInt 0)"
  obtain n where "as_number t = Some n" "0 < value_of n"
    using pos unfolding has_positive_total_dict t_def [symmetric]
    by (cases "as_number t") simp_all
  then have "percent (JInt 0) t = Inr 0" by (rule percent_zero)
  then have "ratio (JObj kvs) = Inr 0" by (simp add: ratio_def none t_def)
  then show "count_one (JObj kvs) d = Inr (d\<lparr>critical := critical d + 1\<rparr>)"
    unfolding count_one_classify [OF pos] by simp
next
  assume u: "async_update_data (Post_Response 200 (Inr (JArr rs))) = Inr d'"
  let ?start = "initial_data\<lparr>series := rs, total' := int (length rs)\<rparr>"
  obtain d1 where 1: "count_loop rs ?start = Inr d1" and 2: "set_completion_pct d1 = Inr d'"
    using u by (rule update_200_list)
  show "total' d' = int (length rs)"
    using count_loop_counts [OF 1] set_completion_pct_fields [OF 2] by simp
qed

theorem missing_fields_read_as_zero_witness:
  "map_of [(''title'', JStr ''Lost'')] ''totalEpisodes'' = None
   \<and> count_one (JObj [(''title'', JStr ''Lost'')]) initial_data = Inr initial_data
   \<and> count_one (JObj [(''title'', JStr ''Lost'')]) initial_data =
       count_one (JObj [(''totalEpisodes'', JInt 0), (''title'', JStr ''Lost'')]) initial_data
   \<and> has_positive_total (JObj [(''totalEpisodes'', JInt 10)])
   \<and> map_of [(''totalEpisodes'', JInt 10)] ''episode_count'' = None
   \<and> count_one (JObj [(''totalEpisodes'', JInt 10)]) initial_data =
       Inr (initial_data\<lparr>critical := 1\<rparr>)
   \<and> async_update_data (Post_Response 200 (Inr (JArr example_series))) =
       Inr \<lparr>total' = 5, complete' = 1, incomplete = 1, critical = 1,
            completion_pct = 2343279181116211 / 70368744177664, series = example_series\<rparr>
   \<and> (5::int) = int (length example_series)"
proof -
  have a: "map_of [(''title'', JStr ''Lost'')] ''totalEpisodes'' = None" by simp
  have b: "has_positive_total (JObj [(''totalEpisodes'', JInt 10)])"
    by (simp add: has_positive_total_def)
  have c: "map_of [(''totalEpisodes'', JInt 10)] ''episode_count'' = None" by simp
  note m1 = missing_fields_read_as_zero
    [of "[(''title'', JStr ''Lost'')]" "''totalEpisodes''" initial_data example_series
        "\<lparr>total' = 5, complete' = 1, incomplete = 1, critical = 1,
          completion_pct = 2343279181116211 / 70368744177664, series = example_series\<rparr>"]
  note m2 = missing_fields_read_as_zero
    [of "[(''totalEpisodes'', JInt 10)]" "''episode_count''" initial_data "[]" initial_data]
  have 1: "count_one (JObj [(''title'', JStr ''Lost'')]) initial_data =
       count_one (JObj [(''totalEpisodes'', JInt 0), (''title'', JStr ''Lost'')]) initial_data"
    using m1 [THEN conjunct1, THEN mp, OF a] .
  have 2: "count_one (JObj [(''title'', JStr ''Lost'')]) initial_data = Inr initial_data"
    using m1 [THEN conjunct2, THEN conjunct1, THEN mp, OF a] .
  have 3: "count_one (JObj [(''totalEpisodes'', JInt 10)]) initial_data =
       Inr (initial_data\<lparr>critical := 1\<rparr>)"
    using m2 [THEN conjunct2, THEN conjunct2, THEN conjunct1, THEN mp, THEN mp, OF b c]
    by (simp add: initial_data_def)
  have 4: "(5::int) = int (length example_series)"
    using m1 [THEN conjunct2, THEN conjunct2, THEN conjunct2, THEN mp, OF example_update]
    by simp
  show ?thesis
    using a b c 1 2 3 4 example_update by (simp only: simp_thms)
qed

text \<open>
  C9. A 200 response whose JSON body is not a list raises nothing: the update returns
  the all-zero snapshot, and the refresh puts it in the place of any earlier one.
\<close>

theorem non_list_body_publishes_zero:
  assumes "\<forall>xs. j \<noteq> JArr xs"
  shows "async_update_data (Post_Response 200 (Inr j)) =
           Inr \<lparr>total' = 0, complete' = 0, incomplete = 0, critical = 0,
                completion_pct = 0, series = []\<rparr>
    \<and> data (async_refresh c (Post_Response 200 (Inr j))) =
           Some \<lparr>total' = 0, complete' = 0, incomplete = 0, critical = 0,
                 completion_pct = 0, series = []\<rparr>"
  using fetch_not_list [OF assms]
  by (simp add: async_refresh_def async_update_data_def initial_data_def)

theorem non_list_body_publishes_zero_witness:
  "(\<forall>xs. JObj [(''error'', JStr ''busy'')] \<noteq> JArr xs)
   \<and> async_update_data (Post_Response 200 (Inr (JObj [(''error'', JStr ''busy'')]))) =
           Inr \<lparr>total' = 0, complete' = 0, incomplete = 0, critical = 0,
                completion_pct = 0, series = []\<rparr>
   \<and> data (async_refresh cached_coordinator
             (Post_Response 200 (Inr (JObj [(''error'', JStr ''busy'')])))) =
           Some \<lparr>total' = 0, complete' = 0, incomplete = 0, critical = 0,
                 completion_pct = 0, series = []\<rparr>"
proof -
  have h: "\<forall>xs. JObj [(''error'', JStr ''busy'')] \<noteq> JArr xs" by simp
  show ?thesis
    using non_list_body_publishes_zero [OF h, of cached_coordinator] h by simp
qed

text \<open>
  C10. The update function never divides by zero: with a division that raises
  \<^verbatim>\<open>ZeroDivisionError\<close> on a zero divisor, neither the loop body, nor the lines that
  compute the percentage, nor the function as a whole raises it.
\<close>

theorem no_division_by_zero:
  "async_update_data r \<noteq> Inl ZeroDivisionError
   \<and> count_one s d \<noteq> Inl ZeroDivisionError
   \<and> set_completion_pct d \<noteq> Inl ZeroDivisionError"
  using fetch_no_zero_division [of r] count_one_no_zero_division [of s d]
    set_completion_pct_no_zero_division [of d]
  by (auto simp: async_update_data_def split: sum.splits dest: except_zero_division)

end
